theory Spec2Isabelle
  imports Complex_Main "HOL-Library.Multiset" "HOL-Library.Sublist"
begin

section \<open>Data model of the preset index (src/modules/presets/index.js)\<close>

text \<open>
  JavaScript objects used as dictionaries (\<open>_index\<close>, its per-geometry buckets, \<open>tags\<close>,
  \<open>areaKeys\<close>) are modelled by their own properties: an unordered one as a map, an
  enumerated one (\<open>for (var k in tags)\<close>) as an association list in enumeration order.
  Where the key of a lookup is free-form input, the tag keys of a feature in \<open>matchTags\<close>,
  the lookup also finds what a plain object inherits from \<open>Object.prototype\<close>
  (\<open>inheritedLength\<close> below). The tag keys and geometries of catalog presets, the keys in
  \<open>build\<close> and \<open>areaKeys\<close>, are taken not to name such a member. Reading a property of
  \<open>undefined\<close> is the error value \<open>TypeError\<close>.
\<close>

datatype error = TypeError

type_synonym tagmap = "(string \<times> string) list"

text \<open>
  A preset as \<open>presetPreset\<close> builds it (that module is not part of the sources): the
  fields \<open>index.js\<close> reads. \<open>pid\<close> is the field \<open>id\<close>; \<open>searchable\<close> is \<open>False\<close> exactly
  when the JavaScript field is \<open>=== false\<close>. A category item of the collection has no
  \<open>tags\<close> property and is a value with \<open>tags = []\<close>.
\<close>

record preset =
  pid :: string
  tags :: tagmap
  geometry :: "string list"
  suggestion :: bool
  replacement :: bool
  searchable :: bool

type_synonym bucket_map = "string \<rightharpoonup> preset list"

type_synonym geometry_index = "string \<rightharpoonup> bucket_map"

text \<open>The value every (re)initialisation assigns to \<open>_index\<close> (lines 32-38, 255, 272-278).\<close>

definition emptyIndex :: geometry_index where
  "emptyIndex =
     [''point'' \<mapsto> Map.empty, ''vertex'' \<mapsto> Map.empty, ''line'' \<mapsto> Map.empty,
      ''area'' \<mapsto> Map.empty, ''relation'' \<mapsto> Map.empty]"

section \<open>matchTags (lines 53-84)\<close>

text \<open>The test \<open>/^addr:/.test(k)\<close>.\<close>

definition isAddrKey :: "string \<Rightarrow> bool" where
  "isAddrKey k = (take 5 k = ''addr:'')"

text \<open>\<open>xs[0]\<close> of an array: \<open>undefined\<close> on the empty array.\<close>

fun arrayHead :: "'a list \<Rightarrow> 'a option" where
  "arrayHead [] = None"
| "arrayHead (x # xs) = Some x"

text \<open>
  The inner loop (lines 70-76) over one bucket \<open>keyMatches\<close>, threading \<open>(best, match)\<close>.
  \<open>matchScore\<close> is the scoring method of a preset (defined in the absent \<open>presetPreset\<close>),
  taken as a parameter; a score is a JavaScript number compared with \<open>>\<close>.
\<close>

fun scoreBucket ::
  "(preset \<Rightarrow> tagmap \<Rightarrow> real) \<Rightarrow> tagmap \<Rightarrow> preset list \<Rightarrow> real \<times> preset option
     \<Rightarrow> real \<times> preset option" where
  "scoreBucket matchScore etags [] bm = bm"
| "scoreBucket matchScore etags (p # ps) (best, mtch) =
     (let score = matchScore p etags in
      if score > best then scoreBucket matchScore etags ps (score, Some p)
      else scoreBucket matchScore etags ps (best, mtch))"

text \<open>
  The geometry kind \<open>matchTags\<close> is called with, one of the five of the data model, and
  the string that names it as a key of \<open>_index\<close>. None of the five names is a member of
  \<open>Object.prototype\<close>, so \<open>_index[geometry]\<close> is an own property or \<open>undefined\<close>.
\<close>

datatype geometry_kind = Point | Vertex | Line | Area | Relation

fun kindName :: "geometry_kind \<Rightarrow> string" where
  "kindName Point = ''point''"
| "kindName Vertex = ''vertex''"
| "kindName Line = ''line''"
| "kindName Area = ''area''"
| "kindName Relation = ''relation''"

text \<open>
  What \<open>geometryMatches[k]\<close> finds when the bucket object has no own property \<open>k\<close>: the
  members that a plain object inherits from \<open>Object.prototype\<close> (ECMAScript, with its
  annex B), each given by its \<open>length\<close>, which bounds the loop of lines 70-76. The
  methods are functions with that \<open>length\<close>; \<open>constructor\<close> is the function \<open>Object\<close>, of
  length 1; \<open>__proto__\<close> yields \<open>Object.prototype\<close> itself, whose \<open>length\<close> is \<open>undefined\<close>,
  so that \<open>0 < keyMatches.length\<close> is false as it is for the length 0. Any other key
  is \<open>undefined\<close> (\<open>None\<close>).
\<close>

definition inheritedLength :: "string \<Rightarrow> nat option" where
  "inheritedLength k =
     (if k \<in> set [''constructor'', ''hasOwnProperty'', ''isPrototypeOf'', ''propertyIsEnumerable'',
                    ''__lookupGetter__'', ''__lookupSetter__''] then Some 1
      else if k \<in> set [''__defineGetter__'', ''__defineSetter__''] then Some 2
      else if k \<in> set [''toString'', ''toLocaleString'', ''valueOf'', ''__proto__''] then Some 0
      else None)"

text \<open>
  The outer loop (lines 60-78) over the keys of \<open>tags\<close> in enumeration order, threading
  \<open>(address, best, match)\<close>; \<open>geometryMatches\<close> is \<open>_index[geometry]\<close>. An empty array is
  truthy, so an \<open>addr:*\<close> bucket that exists but is empty sets \<open>address\<close> to \<open>undefined\<close>
  (the key \<open>addr:*\<close> is never inherited). For a key with no own bucket, \<open>keyMatches\<close>
  is \<open>undefined\<close> and the loop continues, unless the key names an inherited member:
  that one is truthy, and when its \<open>length\<close> is positive the first iteration reads
  \<open>keyMatches[0]\<close>, which is \<open>undefined\<close>, and calls \<open>matchScore\<close> on it, a \<open>TypeError\<close>.
\<close>

fun keyLoop ::
  "(preset \<Rightarrow> tagmap \<Rightarrow> real) \<Rightarrow> bucket_map \<Rightarrow> tagmap \<Rightarrow> string list
     \<Rightarrow> preset option \<times> real \<times> preset option
     \<Rightarrow> error + preset option \<times> real \<times> preset option" where
  "keyLoop matchScore geometryMatches etags [] st = Inr st"
| "keyLoop matchScore geometryMatches etags (k # ks) (address, best, mtch) =
     (let address' =
            (case geometryMatches ''addr:*'' of
               None \<Rightarrow> address
             | Some bucket \<Rightarrow> if isAddrKey k then arrayHead bucket else address)
      in case geometryMatches k of
           Some keyMatches \<Rightarrow>
             (case scoreBucket matchScore etags keyMatches (best, mtch) of
                (best', mtch') \<Rightarrow>
                  keyLoop matchScore geometryMatches etags ks (address', best', mtch'))
         | None \<Rightarrow>
             (case inheritedLength k of
                None \<Rightarrow> keyLoop matchScore geometryMatches etags ks (address', best, mtch)
              | Some n \<Rightarrow>
                  if 0 < n then Inl TypeError
                  else keyLoop matchScore geometryMatches etags ks (address', best, mtch)))"

text \<open>
  \<open>all.matchTags(tags, geometry)\<close>. \<open>isFallback\<close> is the fallback predicate of a preset and
  \<open>fallback\<close> is \<open>all.fallback\<close> of the collection (both defined in absent modules), taken
  as parameters; \<open>fallback g = None\<close> is the lookup finding no generic preset for \<open>g\<close>, as
  on the empty collection that \<open>reset\<close> leaves. When \<open>_index[geometry]\<close> is \<open>undefined\<close>
  the first key of \<open>tags\<close> dereferences it; with no key the loop body never runs.
\<close>

definition matchTags ::
  "(preset \<Rightarrow> tagmap \<Rightarrow> real) \<Rightarrow> (preset \<Rightarrow> bool) \<Rightarrow> (string \<Rightarrow> preset option)
     \<Rightarrow> geometry_index \<Rightarrow> tagmap \<Rightarrow> geometry_kind \<Rightarrow> error + preset option" where
  "matchTags matchScore isFallback fallback idx etags geom =
     (case idx (kindName geom) of
        None \<Rightarrow> if etags = [] then Inr (fallback (kindName geom)) else Inl TypeError
      | Some geometryMatches \<Rightarrow>
          (case keyLoop matchScore geometryMatches etags (map fst etags) (None, - 1, None) of
             Inl e \<Rightarrow> Inl e
           | Inr (address, best, mtch) \<Rightarrow>
               (let mtch' =
                      (if address \<noteq> None \<and> (case mtch of None \<Rightarrow> True | Some m \<Rightarrow> isFallback m)
                       then address else mtch)
                in Inr (case mtch' of Some m \<Rightarrow> Some m | None \<Rightarrow> fallback (kindName geom)))))"

text \<open>
  The value of \<open>match\<close> when the loop ends: the best scoring match, before the address
  rule. There is none when the loop throws.
\<close>

definition bestMatch ::
  "(preset \<Rightarrow> tagmap \<Rightarrow> real) \<Rightarrow> bucket_map \<Rightarrow> tagmap \<Rightarrow> preset option" where
  "bestMatch matchScore geometryMatches etags =
     (case keyLoop matchScore geometryMatches etags (map fst etags) (None, - 1, None) of
        Inl e \<Rightarrow> None
      | Inr (address, best, mtch) \<Rightarrow> mtch)"

text \<open>
  A key on which the loop throws: no own bucket, and an inherited member of positive
  \<open>length\<close>.
\<close>

definition throwingKey :: "bucket_map \<Rightarrow> string \<Rightarrow> bool" where
  "throwingKey geometryMatches k =
     (geometryMatches k = None \<and> (case inheritedLength k of None \<Rightarrow> False | Some n \<Rightarrow> 0 < n))"

text \<open>
  The candidates in the order the two loops meet them: for each key of \<open>tags\<close> in
  enumeration order, the bucket of that key in insertion order.
\<close>

definition candidates :: "bucket_map \<Rightarrow> string list \<Rightarrow> preset list" where
  "candidates geometryMatches ks =
     concat (map (\<lambda>k. case geometryMatches k of None \<Rightarrow> [] | Some keyMatches \<Rightarrow> keyMatches) ks)"

section \<open>allowsVertex (lines 86-100)\<close>

record entity =
  etype :: string
  entity_tags :: tagmap

text \<open>
  Modelled from the spec: \<open>resolver.transient(feature, slotName, computeFn)\<close>, the
  resolver's memoization helper (an external collaborator): the cached result of the slot
  when there is one, the computed value otherwise.
\<close>

definition transient :: "'a option \<Rightarrow> 'a \<Rightarrow> 'a" where
  "transient cached computed = (case cached of Some v \<Rightarrow> v | None \<Rightarrow> computed)"

text \<open>
  \<open>all.allowsVertex(entity, resolver)\<close>. \<open>cached\<close> is the resolver's \<open>vertexMatch\<close> slot for
  the entity, \<open>isOnAddressLine\<close> the value of \<open>entity.isOnAddressLine(resolver)\<close>, and
  \<open>osmNodeGeometriesForTags\<close> the external classifier, whose result is read by the
  truthiness of its \<open>vertex\<close> and \<open>point\<close> properties.
\<close>

definition allowsVertex ::
  "(tagmap \<Rightarrow> string \<Rightarrow> bool) \<Rightarrow> bool \<Rightarrow> bool option \<Rightarrow> entity \<Rightarrow> bool" where
  "allowsVertex osmNodeGeometriesForTags isOnAddressLine cached e =
     (if etype e \<noteq> ''node'' then False
      else if entity_tags e = [] then True
      else transient cached
             (if isOnAddressLine then True
              else (let geometries = osmNodeGeometriesForTags (entity_tags e) in
                    if geometries ''vertex'' then True
                    else if geometries ''point'' then False
                    else True)))"

section \<open>areaKeys (lines 114-149)\<close>

type_synonym area_keys = "string \<rightharpoonup> string set"

definition ignore :: "string list" where
  "ignore = [''barrier'', ''highway'', ''footway'', ''railway'', ''type'']"

text \<open>
  One call of the whitelist callback (lines 124-132). \<open>for (var key in d.tags) break\<close>
  leaves the first enumerated key in \<open>key\<close>, or \<open>undefined\<close> when there is none; \<open>!key\<close>
  also holds for the empty string.
\<close>

definition whitelistStep :: "area_keys \<Rightarrow> preset \<Rightarrow> area_keys" where
  "whitelistStep areaKeys d =
     (case tags d of
        [] \<Rightarrow> areaKeys
      | (key, value) # _ \<Rightarrow>
          if key = [] then areaKeys
          else if key \<in> set ignore then areaKeys
          else if ''area'' \<in> set (geometry d)
            then areaKeys(key \<mapsto> (case areaKeys key of None \<Rightarrow> {} | Some vs \<Rightarrow> vs))
          else areaKeys)"

text \<open>
  One call of the blacklist callback (lines 135-146); \<open>value\<close> is \<open>d.tags[key]\<close> for the
  first key.
\<close>

definition blacklistStep :: "area_keys \<Rightarrow> preset \<Rightarrow> area_keys" where
  "blacklistStep areaKeys d =
     (case tags d of
        [] \<Rightarrow> areaKeys
      | (key, value) # _ \<Rightarrow>
          if key = [] then areaKeys
          else if key \<in> set ignore then areaKeys
          else (case areaKeys key of
                  None \<Rightarrow> areaKeys
                | Some vs \<Rightarrow>
                    if ''line'' \<in> set (geometry d) \<and> value \<noteq> ''*''
                    then areaKeys(key \<mapsto> insert value vs)
                    else areaKeys))"

definition areaKeys :: "preset list \<Rightarrow> area_keys" where
  "areaKeys coll =
     (let presets = filter (\<lambda>p. \<not> suggestion p \<and> \<not> replacement p) coll
      in foldl blacklistStep (foldl whitelistStep Map.empty presets) presets)"

section \<open>build, init, reset, fromExternal (lines 187-296)\<close>

text \<open>
  The part of the closure's state that the catalog lifecycle writes and the claims read:
  \<open>all.collection\<close> and \<open>_index\<close>. (\<open>_fields\<close>, \<open>_universal\<close> and \<open>_defaults\<close> are written
  by \<open>build\<close> too and read by no function modelled here.)
\<close>

record pstate =
  collection :: "preset list"
  p_index :: geometry_index

text \<open>
  The catalog data \<open>d\<close> handed to \<open>build\<close>: the items \<open>presetPreset\<close> and
  \<open>presetCategory\<close> construct from \<open>d.presets\<close> and \<open>d.categories\<close>, in \<open>Object.keys\<close> order;
  \<open>None\<close> is an absent property.
\<close>

record catalog =
  d_presets :: "preset list option"
  d_categories :: "preset list option"

text \<open>
  Modelled from the spec: \<open>all.index(id)\<close> of the collection (\<open>presetCollection\<close> is not
  part of the sources), the index-by-id lookup: the position of the first item with that
  id, \<open>None\<close> for the result \<open>-1\<close>.
\<close>

fun collectionIndex :: "preset list \<Rightarrow> string \<Rightarrow> nat option" where
  "collectionIndex [] i = None"
| "collectionIndex (p # ps) i =
     (if pid p = i then Some 0 else map_option Suc (collectionIndex ps i))"

text \<open>One call of the callbacks of lines 200-209 and 213-221: replace by id, or append.\<close>

definition upsert :: "preset list \<Rightarrow> preset \<Rightarrow> preset list" where
  "upsert coll p =
     (case collectionIndex coll (pid p) of
        Some existing \<Rightarrow> coll[existing := p]
      | None \<Rightarrow> coll @ [p])"

text \<open>The loop of lines 241-243: \<open>(g[k] = g[k] || []).push(preset)\<close> for every key.\<close>

fun indexKeys :: "preset \<Rightarrow> string list \<Rightarrow> bucket_map \<Rightarrow> bucket_map" where
  "indexKeys p [] g = g"
| "indexKeys p (k # ks) g =
     indexKeys p ks (g(k \<mapsto> (case g k of None \<Rightarrow> [] | Some b \<Rightarrow> b) @ [p]))"

text \<open>
  The loop of lines 239-244 over \<open>preset.geometry\<close>. For a geometry that \<open>_index\<close> does not
  have, \<open>g\<close> is \<open>undefined\<close> and the first tag key dereferences it.
\<close>

fun indexGeometries :: "preset \<Rightarrow> string list \<Rightarrow> geometry_index \<Rightarrow> error + geometry_index" where
  "indexGeometries p [] idx = Inr idx"
| "indexGeometries p (gj # gs) idx =
     (case idx gj of
        None \<Rightarrow> if tags p = [] then indexGeometries p gs idx else Inl TypeError
      | Some g \<Rightarrow> indexGeometries p gs (idx(gj \<mapsto> indexKeys p (map fst (tags p)) g)))"

text \<open>The loop of lines 235-245 over \<open>all.collection\<close>.\<close>

fun indexCollection :: "preset list \<Rightarrow> geometry_index \<Rightarrow> error + geometry_index" where
  "indexCollection [] idx = Inr idx"
| "indexCollection (p # ps) idx =
     (case indexGeometries p (geometry p) idx of
        Inl e \<Rightarrow> Inl e
      | Inr idx' \<Rightarrow> indexCollection ps idx')"

definition build :: "catalog \<Rightarrow> pstate \<Rightarrow> error + pstate" where
  "build d s =
     (let c1 = (case d_presets d of None \<Rightarrow> collection s | Some ps \<Rightarrow> foldl upsert (collection s) ps);
          c2 = (case d_categories d of None \<Rightarrow> c1 | Some cs \<Rightarrow> foldl upsert c1 cs)
      in case indexCollection c2 (p_index s) of
           Inl e \<Rightarrow> Inl e
         | Inr idx \<Rightarrow> Inr \<lparr>collection = c2, p_index = idx\<rparr>)"

text \<open>\<open>builtin\<close> is \<open>data.presets\<close>, the built-in catalog.\<close>

definition init :: "catalog \<Rightarrow> pstate \<Rightarrow> error + pstate" where
  "init builtin s = build builtin \<lparr>collection = [], p_index = emptyIndex\<rparr>"

definition reset :: "pstate \<Rightarrow> pstate" where
  "reset s = \<lparr>collection = [], p_index = emptyIndex\<rparr>"

text \<open>
  \<open>all.fromExternal\<close> run to the completion of its fetch: \<open>fetched\<close> is the external catalog,
  or \<open>None\<close> when the fetch fails. An exception in the \<open>then\<close> callback rejects the promise,
  so the \<open>catch\<close> callback runs \<open>init\<close> then as well.
\<close>

definition fromExternal :: "catalog \<Rightarrow> catalog option \<Rightarrow> pstate \<Rightarrow> error + pstate" where
  "fromExternal builtin fetched s =
     (let s0 = reset s in
      case fetched of
        None \<Rightarrow> init builtin s0
      | Some externalPresets \<Rightarrow>
          (case build builtin s0 of
             Inl e \<Rightarrow> init builtin s0
           | Inr s1 \<Rightarrow>
               (case build externalPresets s1 of
                  Inl e \<Rightarrow> init builtin s1
                | Inr s2 \<Rightarrow> Inr s2)))"

section \<open>Favorites and recents (lines 321-520)\<close>

datatype source = Favorite | Recent

record ribbon_item =
  item_preset :: preset
  item_geometry :: string
  item_source :: source

definition RibbonItem :: "preset \<Rightarrow> string \<Rightarrow> source \<Rightarrow> ribbon_item" where
  "RibbonItem p g src = \<lparr>item_preset = p, item_geometry = g, item_source = src\<rparr>"

definition matches :: "ribbon_item \<Rightarrow> preset \<Rightarrow> string \<Rightarrow> bool" where
  "matches item p g = (pid (item_preset item) = pid p \<and> item_geometry item = g)"

text \<open>
  The two lists as \<open>getFavorites()\<close> and \<open>getRecents()\<close> return them, that is after their
  lazy load from storage; \<open>setFavorites\<close> and \<open>setRecents\<close> store the list back (and persist
  and notify, which no claim reads).
\<close>

record ribbons =
  p_favorites :: "ribbon_item list"
  p_recents :: "ribbon_item list"

text \<open>
  \<open>items.indexOf(x)\<close>: the first position holding \<open>x\<close>, or \<open>-1\<close>. JavaScript compares
  the items by identity and the model by value; for the item that \<open>favoriteMatching\<close> or
  \<open>recentMatching\<close> returns, the first item that matches, both find the same position,
  since an item equal to it by value matches as well.
\<close>

fun indexOf :: "'a list \<Rightarrow> 'a \<Rightarrow> int" where
  "indexOf [] x = - 1"
| "indexOf (y # ys) x =
     (if y = x then 0 else (let i = indexOf ys x in if i < 0 then - 1 else i + 1))"

text \<open>
  \<open>items.splice(start, 1)\<close>: a negative \<open>start\<close> counts from the end, and a \<open>start\<close> past the
  end removes nothing.
\<close>

definition splice1 :: "'a list \<Rightarrow> int \<Rightarrow> 'a list" where
  "splice1 xs start =
     (let n = int (length xs);
          s = (if start < 0 then max (n + start) 0 else min start n)
      in take (nat s) xs @ drop (Suc (nat s)) xs)"

text \<open>
  \<open>all.favoriteMatching\<close> and \<open>all.recentMatching\<close>: the geometry is replaced by the id of
  its fallback preset, then the first item that \<open>matches\<close> is returned (\<open>null\<close> is \<open>None\<close>).
  \<open>fallback\<close> is \<open>all.fallback\<close> as in \<open>matchTags\<close>; \<open>.id\<close> of \<open>undefined\<close> is a \<open>TypeError\<close>.
\<close>

definition favoriteMatching ::
  "(string \<Rightarrow> preset option) \<Rightarrow> ribbons \<Rightarrow> preset \<Rightarrow> string \<Rightarrow> error + ribbon_item option" where
  "favoriteMatching fallback s p geom =
     (case fallback geom of
        None \<Rightarrow> Inl TypeError
      | Some fb \<Rightarrow> Inr (find (\<lambda>item. matches item p (pid fb)) (p_favorites s)))"

definition recentMatching ::
  "(string \<Rightarrow> preset option) \<Rightarrow> ribbons \<Rightarrow> preset \<Rightarrow> string \<Rightarrow> error + ribbon_item option" where
  "recentMatching fallback s p geom =
     (case fallback geom of
        None \<Rightarrow> Inl TypeError
      | Some fb \<Rightarrow> Inr (find (\<lambda>item. matches item p (pid fb)) (p_recents s)))"

definition toggleFavorite ::
  "(string \<Rightarrow> preset option) \<Rightarrow> ribbons \<Rightarrow> preset \<Rightarrow> string \<Rightarrow> error + ribbons" where
  "toggleFavorite fallback s p geom =
     (case fallback geom of
        None \<Rightarrow> Inl TypeError
      | Some fb \<Rightarrow>
          (let g = pid fb; favs = p_favorites s in
           case favoriteMatching fallback s p g of
             Inl e \<Rightarrow> Inl e
           | Inr (Some favorite) \<Rightarrow>
               Inr (s\<lparr>p_favorites := splice1 favs (indexOf favs favorite)\<rparr>)
           | Inr None \<Rightarrow>
               (let favs' = (if length favs = 10 then butlast favs else favs)
                in Inr (s\<lparr>p_favorites := favs' @ [RibbonItem p g Favorite]\<rparr>))))"

definition addFavorite ::
  "(string \<Rightarrow> preset option) \<Rightarrow> ribbons \<Rightarrow> preset \<Rightarrow> string \<Rightarrow> error + ribbons" where
  "addFavorite fallback s p geom =
     (case fallback geom of
        None \<Rightarrow> Inl TypeError
      | Some fb \<Rightarrow>
          (let g = pid fb; favs = p_favorites s in
           case favoriteMatching fallback s p g of
             Inl e \<Rightarrow> Inl e
           | Inr (Some favorite) \<Rightarrow> Inr (s\<lparr>p_favorites := favs\<rparr>)
           | Inr None \<Rightarrow> Inr (s\<lparr>p_favorites := favs @ [RibbonItem p g Favorite]\<rparr>)))"

text \<open>\<open>inIntro\<close> is the value of \<open>context.inIntro()\<close>.\<close>

definition setMostRecent ::
  "bool \<Rightarrow> (string \<Rightarrow> preset option) \<Rightarrow> ribbons \<Rightarrow> preset \<Rightarrow> string \<Rightarrow> error + ribbons" where
  "setMostRecent inIntro fallback s p geom =
     (if inIntro then Inr s
      else if \<not> searchable p then Inr s
      else (case fallback geom of
              None \<Rightarrow> Inl TypeError
            | Some fb \<Rightarrow>
                (let g = pid fb; items = p_recents s in
                 case recentMatching fallback s p g of
                   Inl e \<Rightarrow> Inl e
                 | Inr found \<Rightarrow>
                     (let (items1, item) =
                            (case found of
                               Some it \<Rightarrow> (splice1 items (indexOf items it), it)
                             | None \<Rightarrow> (items, RibbonItem p g Recent));
                          items2 = (if length items1 = 30 then butlast items1 else items1)
                      in Inr (s\<lparr>p_recents := item # items2\<rparr>)))))"

text \<open>A sequence of add operations, stopped by the first exception.\<close>

datatype ribbon_op =
    ToggleFavorite preset string
  | AddFavorite preset string
  | SetMostRecent preset string

fun applyOp :: "bool \<Rightarrow> (string \<Rightarrow> preset option) \<Rightarrow> ribbons \<Rightarrow> ribbon_op \<Rightarrow> error + ribbons" where
  "applyOp inIntro fallback s (ToggleFavorite p g) = toggleFavorite fallback s p g"
| "applyOp inIntro fallback s (AddFavorite p g) = addFavorite fallback s p g"
| "applyOp inIntro fallback s (SetMostRecent p g) = setMostRecent inIntro fallback s p g"

fun applyOps :: "bool \<Rightarrow> (string \<Rightarrow> preset option) \<Rightarrow> ribbons \<Rightarrow> ribbon_op list \<Rightarrow> error + ribbons" where
  "applyOps inIntro fallback s [] = Inr s"
| "applyOps inIntro fallback s (x # xs) =
     (case applyOp inIntro fallback s x of
        Inl e \<Rightarrow> Inl e
      | Inr s' \<Rightarrow> applyOps inIntro fallback s' xs)"

text \<open>
  What \<open>matches\<close> compares of an item, and the invariant of a list that no two of its
  items are equal in that sense.
\<close>

definition itemKey :: "ribbon_item \<Rightarrow> string \<times> string" where
  "itemKey item = (pid (item_preset item), item_geometry item)"

definition distinctItems :: "ribbon_item list \<Rightarrow> bool" where
  "distinctItems items = distinct (map itemKey items)"

section \<open>A small catalog for the concrete instances\<close>

text \<open>
  An example scoring method in the shape of \<open>matchScore\<close>: one point for a tag matched
  literally, half a point for a wildcard tag whose key is present, \<open>-1\<close> when a tag of
  the preset is missing.
\<close>

fun exScoreTags :: "tagmap \<Rightarrow> tagmap \<Rightarrow> real option" where
  "exScoreTags [] t = Some 0"
| "exScoreTags ((k, v) # r) t =
     (if map_of t k = Some v then map_option (\<lambda>s. s + 1) (exScoreTags r t)
      else if v = ''*'' \<and> map_of t k \<noteq> None then map_option (\<lambda>s. s + 1 / 2) (exScoreTags r t)
      else None)"

definition exScore :: "preset \<Rightarrow> tagmap \<Rightarrow> real" where
  "exScore p t = (case exScoreTags (tags p) t of None \<Rightarrow> - 1 | Some s \<Rightarrow> s)"

definition exIsFallback :: "preset \<Rightarrow> bool" where
  "exIsFallback p = (tags p = [])"

definition mkPreset :: "string \<Rightarrow> tagmap \<Rightarrow> string list \<Rightarrow> preset" where
  "mkPreset i t g =
     \<lparr>pid = i, tags = t, geometry = g, suggestion = False, replacement = False, searchable = True\<rparr>"

definition exPoint :: preset where
  "exPoint = mkPreset ''point'' [] [''point'', ''vertex'']"

definition exLine :: preset where
  "exLine = mkPreset ''line'' [] [''line'']"

definition exArea :: preset where
  "exArea = mkPreset ''area'' [(''area'', ''yes'')] [''area'']"

definition exAddress :: preset where
  "exAddress = mkPreset ''address'' [(''addr:*'', ''*'')] [''point'', ''vertex'', ''area'']"

definition exShop :: preset where
  "exShop = mkPreset ''shop'' [(''shop'', ''*'')] [''point'', ''area'']"

definition exBakery :: preset where
  "exBakery = mkPreset ''shop/bakery'' [(''shop'', ''bakery'')] [''point'', ''area'']"

definition exBakery2 :: preset where
  "exBakery2 = mkPreset ''shop/bakery2'' [(''shop'', ''bakery'')] [''point'']"

definition exFallback :: "string \<Rightarrow> preset option" where
  "exFallback g =
     (if g = ''point'' \<or> g = ''vertex'' then Some exPoint
      else if g = ''line'' then Some exLine
      else if g = ''area'' then Some exArea else None)"

text \<open>A built-in catalog with the generic presets, an address preset and shops.\<close>

definition exCatalog :: catalog where
  "exCatalog = \<lparr>d_presets = Some [exPoint, exLine, exArea, exAddress, exShop, exBakery],
                 d_categories = None\<rparr>"

text \<open>A collection for \<open>areaKeys\<close>; \<open>exBrand\<close> is a name-suggestion preset.\<close>

definition exBuilding :: preset where
  "exBuilding = mkPreset ''building'' [(''building'', ''*'')] [''area'']"

definition exWall :: preset where
  "exWall = mkPreset ''barrier/wall'' [(''barrier'', ''wall'')] [''line'', ''area'']"

definition exPier :: preset where
  "exPier = mkPreset ''man_made/pier'' [(''man_made'', ''pier'')] [''line'', ''area'']"

definition exTower :: preset where
  "exTower = mkPreset ''man_made/tower'' [(''man_made'', ''tower'')] [''point'', ''area'']"

definition exPipeline :: preset where
  "exPipeline = mkPreset ''man_made/pipeline'' [(''man_made'', ''pipeline''), (''location'', ''*'')] [''line'']"

definition exBrand :: preset where
  "exBrand = (mkPreset ''man_made/brand'' [(''man_made'', ''brand'')] [''line'', ''area''])\<lparr>suggestion := True\<rparr>"

definition exCollection :: "preset list" where
  "exCollection = [exPoint, exBuilding, exWall, exPier, exTower, exPipeline, exBrand]"

text \<open>Whether an operation is a call of \<open>addFavorite\<close>.\<close>

fun isAddFavorite :: "ribbon_op \<Rightarrow> bool" where
  "isAddFavorite (AddFavorite p g) = True"
| "isAddFavorite (ToggleFavorite p g) = False"
| "isAddFavorite (SetMostRecent p g) = False"

text \<open>
  Ribbon states: a full favorites list of ten distinct items, and the default favorites
  with three recents.
\<close>

definition exItem :: "string \<Rightarrow> ribbon_item" where
  "exItem n = RibbonItem (mkPreset n [] [''point'']) ''point'' Favorite"

definition exFull :: ribbons where
  "exFull = \<lparr>p_favorites = map exItem [''p0'', ''p1'', ''p2'', ''p3'', ''p4'', ''p5'', ''p6'', ''p7'', ''p8'', ''p9''],
             p_recents = []\<rparr>"

definition exDefaults :: ribbons where
  "exDefaults = \<lparr>p_favorites = [RibbonItem exPoint ''point'' Favorite, RibbonItem exLine ''line'' Favorite,
                                 RibbonItem exArea ''area'' Favorite],
                 p_recents = [RibbonItem exShop ''point'' Recent, RibbonItem exBakery ''point'' Recent,
                              RibbonItem exBakery ''area'' Recent]\<rparr>"


definition exEleven :: "string list" where
  "exEleven = [''p0'', ''p1'', ''p2'', ''p3'', ''p4'', ''p5'', ''p6'', ''p7'', ''p8'', ''p9'', ''p10'']"

text \<open>
  The bucket of a key, empty when the key has none; the presets the index is to hold under
  a geometry and a key; and a preset whose geometry list and tag keys have no repetition
  (the keys of a JavaScript object never repeat).
\<close>

definition bucketOf :: "bucket_map \<Rightarrow> string \<Rightarrow> preset list" where
  "bucketOf g k = (case g k of None \<Rightarrow> [] | Some b \<Rightarrow> b)"

definition indexedUnder :: "string \<Rightarrow> string \<Rightarrow> preset \<Rightarrow> bool" where
  "indexedUnder g k p = (g \<in> set (geometry p) \<and> k \<in> set (map fst (tags p)))"

definition wellFormed :: "preset \<Rightarrow> bool" where
  "wellFormed p = (distinct (geometry p) \<and> distinct (map fst (tags p)))"

text \<open>
  A built-in catalog and an external one that masks the built-in preset \<open>shop\<close> by id.
\<close>

definition exCraft :: preset where
  "exCraft = mkPreset ''shop'' [(''craft'', ''*'')] [''point'']"

definition exBuiltin :: catalog where
  "exBuiltin = \<lparr>d_presets = Some [exShop, exBakery], d_categories = None\<rparr>"

definition exExternal :: catalog where
  "exExternal = \<lparr>d_presets = Some [exCraft], d_categories = None\<rparr>"

text \<open>No bucket of the index is an empty array.\<close>

definition nonEmptyBuckets :: "geometry_index \<Rightarrow> bool" where
  "nonEmptyBuckets idx = (\<forall>g gm k. idx g = Some gm \<longrightarrow> gm k \<noteq> Some [])"

section \<open>Properties of matchTags\<close>

lemma scoreBucket_append:
  "scoreBucket ms t (xs @ ys) bm = scoreBucket ms t ys (scoreBucket ms t xs bm)"
  by (induction ms t xs bm rule: scoreBucket.induct) (auto simp: Let_def)

lemma scoreBucket_unchanged:
  "\<forall>c \<in> set cs. ms c t \<le> best \<Longrightarrow> scoreBucket ms t cs (best, m) = (best, m)"
  by (induction cs) (auto simp: Let_def)

lemma scoreBucket_snoc:
  "scoreBucket ms t (xs @ [c]) bm =
     (case scoreBucket ms t xs bm of
        (b, m) \<Rightarrow> if ms c t > b then (ms c t, Some c) else (b, m))"
  by (cases "scoreBucket ms t xs bm") (simp add: scoreBucket_append Let_def)

lemma scoreBucket_winner:
  "scoreBucket ms t cs (best, m) = (b', m') \<Longrightarrow>
     (b' = best \<and> m' = m \<and> (\<forall>c \<in> set cs. ms c t \<le> best)) \<or>
     (\<exists>i < length cs. m' = Some (cs ! i) \<and> b' = ms (cs ! i) t \<and> best < b' \<and>
        (\<forall>j < length cs. ms (cs ! j) t \<le> b') \<and> (\<forall>j < i. ms (cs ! j) t < b'))"
proof (induction cs arbitrary: best m b' m' rule: rev_induct)
  case Nil
  then show ?case by simp
next
  case (snoc c cs)
  obtain b1 m1 where r: "scoreBucket ms t cs (best, m) = (b1, m1)"
    by (cases "scoreBucket ms t cs (best, m)")
  note ih = snoc.IH[OF r]
  show ?case
  proof (cases "ms c t > b1")
    case True
    then have res: "b' = ms c t" "m' = Some c" using snoc.prems r by (simp_all add: scoreBucket_snoc)
    have ge: "best \<le> b1" using ih by auto
    have le: "\<forall>j < length cs. ms (cs ! j) t \<le> b1"
    proof (intro allI impI)
      fix j assume "j < length cs"
      then have "cs ! j \<in> set cs" by simp
      with ih \<open>j < length cs\<close> show "ms (cs ! j) t \<le> b1" by auto
    qed
    have "\<exists>i < length (cs @ [c]). m' = Some ((cs @ [c]) ! i) \<and> b' = ms ((cs @ [c]) ! i) t \<and> best < b' \<and>
        (\<forall>j < length (cs @ [c]). ms ((cs @ [c]) ! j) t \<le> b') \<and> (\<forall>j < i. ms ((cs @ [c]) ! j) t < b')"
      apply (rule exI[of _ "length cs"])
      using res True le ge by (auto simp: nth_append less_Suc_eq)
    then show ?thesis by blast
  next
    case False
    then have res: "b' = b1" "m' = m1" using snoc.prems r by (simp_all add: scoreBucket_snoc)
    from ih show ?thesis
    proof
      assume "b1 = best \<and> m1 = m \<and> (\<forall>c\<in>set cs. ms c t \<le> best)"
      then show ?thesis using res False by auto
    next
      assume "\<exists>i<length cs. m1 = Some (cs ! i) \<and> b1 = ms (cs ! i) t \<and> best < b1 \<and>
        (\<forall>j<length cs. ms (cs ! j) t \<le> b1) \<and> (\<forall>j<i. ms (cs ! j) t < b1)"
      then obtain i where i: "i < length cs" "m1 = Some (cs ! i)" "b1 = ms (cs ! i) t" "best < b1"
        "\<forall>j<length cs. ms (cs ! j) t \<le> b1" "\<forall>j<i. ms (cs ! j) t < b1" by blast
      have "\<exists>i < length (cs @ [c]). m' = Some ((cs @ [c]) ! i) \<and> b' = ms ((cs @ [c]) ! i) t \<and> best < b' \<and>
        (\<forall>j < length (cs @ [c]). ms ((cs @ [c]) ! j) t \<le> b') \<and> (\<forall>j < i. ms ((cs @ [c]) ! j) t < b')"
        apply (rule exI[of _ i])
        using i res False by (auto simp: nth_append less_Suc_eq)
      then show ?thesis by blast
    qed
  qed
qed

lemma candidates_mem:
  "c \<in> set (candidates gm ks) \<Longrightarrow> \<exists>k \<in> set ks. \<exists>b. gm k = Some b \<and> c \<in> set b"
  by (induction ks) (auto simp: candidates_def split: option.splits)

text \<open>
  When the loop ends without an exception, its scores are those of one pass over the
  candidates, and its address candidate is the first preset of the \<open>addr:*\<close> bucket when
  there is such a bucket and a key with the \<open>addr:\<close> prefix.
\<close>

lemma keyLoop_result:
  "keyLoop ms gm t ks (a, b, m) = Inr (a', b', m') \<Longrightarrow>
     (b', m') = scoreBucket ms t (candidates gm ks) (b, m) \<and>
     a' = (case gm ''addr:*'' of
             None \<Rightarrow> a
           | Some bucket \<Rightarrow> if (\<exists>k \<in> set ks. isAddrKey k) then arrayHead bucket else a)"
proof (induction ks arbitrary: a b m)
  case Nil
  then show ?case by (simp add: candidates_def split: option.splits)
next
  case (Cons k ks)
  let ?a1 = "case gm ''addr:*'' of None \<Rightarrow> a
             | Some bucket \<Rightarrow> if isAddrKey k then arrayHead bucket else a"
  show ?case
  proof (cases "gm k")
    case None
    have c: "candidates gm (k # ks) = candidates gm ks" using None by (simp add: candidates_def)
    have r: "keyLoop ms gm t ks (?a1, b, m) = Inr (a', b', m')"
      using Cons.prems None by (auto simp: Let_def split: option.splits if_splits)
    from Cons.IH[OF r] c show ?thesis by (auto split: option.splits)
  next
    case (Some km)
    obtain b1 m1 where bm: "scoreBucket ms t km (b, m) = (b1, m1)"
      by (cases "scoreBucket ms t km (b, m)")
    have c: "scoreBucket ms t (candidates gm (k # ks)) (b, m) = scoreBucket ms t (candidates gm ks) (b1, m1)"
      using Some bm by (simp add: candidates_def scoreBucket_append)
    have r: "keyLoop ms gm t ks (?a1, b1, m1) = Inr (a', b', m')"
      using Cons.prems Some bm by (simp add: Let_def)
    from Cons.IH[OF r] c show ?thesis by (auto split: option.splits)
  qed
qed

text \<open>The loop throws exactly when a key of the tags is a throwing key.\<close>

lemma keyLoop_throws:
  "\<exists>k \<in> set ks. throwingKey gm k \<Longrightarrow> keyLoop ms gm t ks st = Inl TypeError"
proof (induction ks arbitrary: st)
  case Nil
  then show ?case by simp
next
  case (Cons k ks)
  obtain a b m where st: "st = (a, b, m)" by (cases st) auto
  show ?case
  proof (cases "throwingKey gm k")
    case True
    then show ?thesis unfolding st by (auto simp: throwingKey_def Let_def split: option.splits)
  next
    case False
    then have rest: "\<exists>k \<in> set ks. throwingKey gm k" using Cons.prems by simp
    show ?thesis
    proof (cases "gm k")
      case None
      then show ?thesis unfolding st using Cons.IH[OF rest]
        by (simp add: Let_def split: option.splits)
    next
      case (Some km)
      obtain b1 m1 where "scoreBucket ms t km (b, m) = (b1, m1)"
        by (cases "scoreBucket ms t km (b, m)")
      then show ?thesis unfolding st using Some Cons.IH[OF rest] by (simp add: Let_def)
    qed
  qed
qed

lemma keyLoop_returns:
  "\<forall>k \<in> set ks. \<not> throwingKey gm k \<Longrightarrow> \<exists>st'. keyLoop ms gm t ks st = Inr st'"
proof (induction ks arbitrary: st)
  case Nil
  show ?case by (cases st) auto
next
  case (Cons k ks)
  obtain a b m where st: "st = (a, b, m)" by (cases st) auto
  have rest: "\<forall>k \<in> set ks. \<not> throwingKey gm k" using Cons.prems by simp
  have k: "\<not> throwingKey gm k" using Cons.prems by simp
  show ?case
  proof (cases "gm k")
    case None
    then show ?thesis unfolding st using Cons.IH[OF rest] k
      by (auto simp: throwingKey_def Let_def split: option.splits)
  next
    case (Some km)
    obtain b1 m1 where "scoreBucket ms t km (b, m) = (b1, m1)"
      by (cases "scoreBucket ms t km (b, m)")
    then show ?thesis unfolding st using Some Cons.IH[OF rest] by (simp add: Let_def)
  qed
qed

lemma matchTags_throws:
  assumes "gidx (kindName geom) = Some geometryMatches"
    and "\<exists>k \<in> set (map fst etags). throwingKey geometryMatches k"
  shows "matchTags ms isFb fallback gidx etags geom = Inl TypeError"
  using assms(1) keyLoop_throws[OF assms(2)] by (simp add: matchTags_def)

text \<open>
  What \<open>matchTags\<close> does on tags without a throwing key, for a geometry kind of the index
  and a catalog that registers a fallback preset for it: it returns a preset, and the
  fallback preset when no preset indexed under a key of the tags scores above the initial
  \<open>-1\<close> and there is no address candidate.
\<close>

lemma matchTags_plain_keys:
  assumes idx: "gidx (kindName geom) = Some geometryMatches"
    and fb: "fallback (kindName geom) = Some fb"
    and plain: "\<forall>k \<in> set (map fst etags). \<not> throwingKey geometryMatches k"
  shows "(\<exists>p. matchTags ms isFb fallback gidx etags geom = Inr (Some p)) \<and>
         ((\<forall>k \<in> set (map fst etags). \<forall>b. geometryMatches k = Some b \<longrightarrow> (\<forall>c \<in> set b. ms c etags \<le> - 1)) \<and>
          ((\<forall>k \<in> set (map fst etags). \<not> isAddrKey k) \<or> geometryMatches ''addr:*'' = None)
          \<longrightarrow> matchTags ms isFb fallback gidx etags geom = Inr (Some fb))"
proof (intro conjI impI)
  from keyLoop_returns[OF plain] obtain st' where
    "keyLoop ms geometryMatches etags (map fst etags) (None, - 1, None) = Inr st'"
    by blast
  then obtain a b m where kl:
    "keyLoop ms geometryMatches etags (map fst etags) (None, - 1, None) = Inr (a, b, m)"
    by (cases st') auto
  show "\<exists>p. matchTags ms isFb fallback gidx etags geom = Inr (Some p)"
    using idx fb kl by (auto simp: matchTags_def Let_def split: option.splits)
  assume h: "(\<forall>k \<in> set (map fst etags). \<forall>b. geometryMatches k = Some b \<longrightarrow> (\<forall>c \<in> set b. ms c etags \<le> - 1)) \<and>
          ((\<forall>k \<in> set (map fst etags). \<not> isAddrKey k) \<or> geometryMatches ''addr:*'' = None)"
  have "\<forall>c \<in> set (candidates geometryMatches (map fst etags)). ms c etags \<le> - 1"
  proof
    fix c assume "c \<in> set (candidates geometryMatches (map fst etags))"
    then obtain k b where "k \<in> set (map fst etags)" "geometryMatches k = Some b" "c \<in> set b"
      using candidates_mem by blast
    with h show "ms c etags \<le> - 1" by blast
  qed
  then have "scoreBucket ms etags (candidates geometryMatches (map fst etags)) (- 1, None) = (- 1, None)"
    by (rule scoreBucket_unchanged)
  then have m: "m = None" using keyLoop_result[OF kl] by simp
  have a: "a = None" using keyLoop_result[OF kl] h by (auto split: option.splits)
  show "matchTags ms isFb fallback gidx etags geom = Inr (Some fb)"
    using idx fb kl a m by (simp add: matchTags_def)
qed

text \<open>
  The address rule of line 80, on tags without a throwing key: with a key of the \<open>addr:\<close>
  prefix and an \<open>addr:*\<close> bucket, the first preset of the bucket replaces a best match
  that is absent or a fallback preset.
\<close>

lemma matchTags_address_rule:
  assumes idx: "gidx (kindName geom) = Some geometryMatches"
    and bucket: "geometryMatches ''addr:*'' = Some (a # rest)"
    and key: "\<exists>k \<in> set (map fst etags). isAddrKey k"
    and plain: "\<forall>k \<in> set (map fst etags). \<not> throwingKey geometryMatches k"
    and best: "case bestMatch ms geometryMatches etags of None \<Rightarrow> True | Some m \<Rightarrow> isFb m"
  shows "matchTags ms isFb fallback gidx etags geom = Inr (Some a)"
proof -
  from keyLoop_returns[OF plain] obtain st' where
    "keyLoop ms geometryMatches etags (map fst etags) (None, - 1, None) = Inr st'"
    by blast
  then obtain ad b m where kl:
    "keyLoop ms geometryMatches etags (map fst etags) (None, - 1, None) = Inr (ad, b, m)"
    by (cases st') auto
  have ad: "ad = Some a" using keyLoop_result[OF kl] bucket key by simp
  have m: "bestMatch ms geometryMatches etags = m" using kl by (simp add: bestMatch_def)
  show ?thesis using idx kl ad best m by (auto simp: matchTags_def split: option.splits)
qed

text \<open>The index that \<open>init\<close> builds from the example catalog, for the point geometry.\<close>

lemma init_exCatalog:
  "\<exists>s. init exCatalog \<lparr>collection = [], p_index = emptyIndex\<rparr> = Inr s \<and>
       p_index s ''point'' = Some [''addr:*'' \<mapsto> [exAddress], ''shop'' \<mapsto> [exShop, exBakery]]"
  by (simp add: init_def build_def exCatalog_def upsert_def emptyIndex_def Let_def
      exPoint_def exLine_def exArea_def exAddress_def exShop_def exBakery_def mkPreset_def)

lemma exFallback_Point: "exFallback (kindName Point) = Some exPoint"
  by (simp add: exFallback_def)

text \<open>
  Claim C4 fails on a tag key that \<open>Object.prototype\<close> defines. On the index that \<open>init\<close>
  builds from the example catalog, which registers the fallback preset of the point
  geometry, the tags \<open>{name: 'x'}\<close>, with no indexed key, return that fallback preset; the
  tags \<open>{constructor: 'x'}\<close>, with no indexed preset and no address candidate either,
  return nothing: the lookup finds the inherited function, and the call of \<open>matchScore\<close>
  on its element 0 throws.
\<close>

theorem matchTags_inherited_key_throws:
  "(case init exCatalog \<lparr>collection = [], p_index = emptyIndex\<rparr> of
      Inl e \<Rightarrow> False
    | Inr s \<Rightarrow>
        exFallback (kindName Point) = Some exPoint \<and>
        matchTags exScore exIsFallback exFallback (p_index s) [(''name'', ''x'')] Point
          = Inr (Some exPoint) \<and>
        matchTags exScore exIsFallback exFallback (p_index s) [(''constructor'', ''x'')] Point
          = Inl TypeError)"
proof -
  let ?gm = "[''addr:*'' \<mapsto> [exAddress], ''shop'' \<mapsto> [exShop, exBakery]]"
  from init_exCatalog obtain s where
    s: "init exCatalog \<lparr>collection = [], p_index = emptyIndex\<rparr> = Inr s"
    and i: "p_index s (kindName Point) = Some ?gm"
    by auto
  have 1: "matchTags exScore exIsFallback exFallback (p_index s) [(''name'', ''x'')] Point
      = Inr (Some exPoint)"
    using i by (simp add: matchTags_def inheritedLength_def isAddrKey_def exFallback_def)
  have "throwingKey ?gm ''constructor''" by (simp add: throwingKey_def inheritedLength_def)
  then have 2: "matchTags exScore exIsFallback exFallback (p_index s) [(''constructor'', ''x'')] Point
      = Inl TypeError"
    using matchTags_throws[where gidx = "p_index s" and geom = Point and geometryMatches = ?gm
        and etags = "[(''constructor'', ''x'')]", OF i]
    by simp
  show ?thesis using s 1 2 exFallback_Point by simp
qed

text \<open>
  Claim C5 fails on the same keys. On that index, which has an \<open>addr:*\<close> bucket for the
  point geometry, the tags \<open>{addr:street: 'x'}\<close> return the first preset of the bucket;
  with the further tag \<open>constructor\<close>, which adds no scoring match, so that the best
  match is still absent, the loop throws before the address rule of line 80 is reached.
\<close>

theorem matchTags_address_key_throws:
  "(case init exCatalog \<lparr>collection = [], p_index = emptyIndex\<rparr> of
      Inl e \<Rightarrow> False
    | Inr s \<Rightarrow>
        (case p_index s (kindName Point) of
           None \<Rightarrow> False
         | Some geometryMatches \<Rightarrow> geometryMatches ''addr:*'' = Some [exAddress]) \<and>
        isAddrKey ''addr:street'' \<and>
        matchTags exScore exIsFallback exFallback (p_index s) [(''addr:street'', ''x'')] Point
          = Inr (Some exAddress) \<and>
        matchTags exScore exIsFallback exFallback (p_index s)
            [(''constructor'', ''y''), (''addr:street'', ''x'')] Point
          = Inl TypeError \<and>
        matchTags exScore exIsFallback exFallback (p_index s)
            [(''addr:street'', ''x''), (''constructor'', ''y'')] Point
          = Inl TypeError)"
proof -
  let ?gm = "[''addr:*'' \<mapsto> [exAddress], ''shop'' \<mapsto> [exShop, exBakery]]"
  from init_exCatalog obtain s where
    s: "init exCatalog \<lparr>collection = [], p_index = emptyIndex\<rparr> = Inr s"
    and i: "p_index s (kindName Point) = Some ?gm"
    by auto
  have k: "isAddrKey ''addr:street''" by (simp add: isAddrKey_def)
  have 1: "matchTags exScore exIsFallback exFallback (p_index s) [(''addr:street'', ''x'')] Point
      = Inr (Some exAddress)"
    using i by (simp add: matchTags_def inheritedLength_def isAddrKey_def)
  have t: "throwingKey ?gm ''constructor''" by (simp add: throwingKey_def inheritedLength_def)
  have 2: "matchTags exScore exIsFallback exFallback (p_index s)
      [(''constructor'', ''y''), (''addr:street'', ''x'')] Point = Inl TypeError"
    using matchTags_throws[where gidx = "p_index s" and geom = Point and geometryMatches = ?gm
        and etags = "[(''constructor'', ''y''), (''addr:street'', ''x'')]", OF i] t
    by simp
  have 3: "matchTags exScore exIsFallback exFallback (p_index s)
      [(''addr:street'', ''x''), (''constructor'', ''y'')] Point = Inl TypeError"
    using matchTags_throws[where gidx = "p_index s" and geom = Point and geometryMatches = ?gm
        and etags = "[(''addr:street'', ''x''), (''constructor'', ''y'')]", OF i] t
    by simp
  show ?thesis using s i k 1 2 3 by simp
qed

text \<open>
  Claim C6. Ties go to the first candidate met. One more candidate \<open>c\<close> after the
  candidates \<open>xs\<close> replaces the current winner only when its score is strictly greater
  than the current maximum, and leaves \<open>(best, match)\<close> as they are otherwise; so the
  best match of the whole loop has a maximal score among all candidates, and every
  candidate met before it has a strictly smaller score.
\<close>

theorem matchTags_first_best_wins:
  "scoreBucket ms etags (xs @ [c]) (best, mtch) =
     (case scoreBucket ms etags xs (best, mtch) of
        (b, m) \<Rightarrow> if ms c etags > b then (ms c etags, Some c) else (b, m)) \<and>
   (bestMatch ms geometryMatches etags = Some w \<longrightarrow>
     (\<exists>i < length (candidates geometryMatches (map fst etags)).
        candidates geometryMatches (map fst etags) ! i = w \<and>
        (\<forall>j < length (candidates geometryMatches (map fst etags)).
           ms (candidates geometryMatches (map fst etags) ! j) etags \<le> ms w etags) \<and>
        (\<forall>j < i. ms (candidates geometryMatches (map fst etags) ! j) etags < ms w etags)))"
proof (intro conjI impI)
  show "scoreBucket ms etags (xs @ [c]) (best, mtch) =
     (case scoreBucket ms etags xs (best, mtch) of
        (b, m) \<Rightarrow> if ms c etags > b then (ms c etags, Some c) else (b, m))"
    by (rule scoreBucket_snoc)
  let ?cs = "candidates geometryMatches (map fst etags)"
  assume w: "bestMatch ms geometryMatches etags = Some w"
  then obtain a' b' where kl:
    "keyLoop ms geometryMatches etags (map fst etags) (None, - 1, None) = Inr (a', b', Some w)"
    by (auto simp: bestMatch_def split: sum.splits)
  from keyLoop_result[OF kl] have r: "scoreBucket ms etags ?cs (- 1, None) = (b', Some w)" by simp
  from scoreBucket_winner[OF r]
  obtain i where "i < length ?cs" "Some w = Some (?cs ! i)" "b' = ms (?cs ! i) etags"
    "\<forall>j < length ?cs. ms (?cs ! j) etags \<le> b'" "\<forall>j < i. ms (?cs ! j) etags < b'"
    by auto
  then show "\<exists>i < length ?cs. ?cs ! i = w \<and> (\<forall>j < length ?cs. ms (?cs ! j) etags \<le> ms w etags) \<and>
        (\<forall>j < i. ms (?cs ! j) etags < ms w etags)"
    by auto
qed

text \<open>
  An instance: two bakery presets score the same on \<open>shop=bakery\<close>, and the one met first
  is the best match.
\<close>

theorem matchTags_first_best_wins_witness:
  "bestMatch exScore [''addr:*'' \<mapsto> [exAddress], ''shop'' \<mapsto> [exShop, exBakery, exBakery2]]
     [(''shop'', ''bakery'')] = Some exBakery \<and>
   exScore exBakery2 [(''shop'', ''bakery'')] = exScore exBakery [(''shop'', ''bakery'')] \<and>
   candidates [''addr:*'' \<mapsto> [exAddress], ''shop'' \<mapsto> [exShop, exBakery, exBakery2]]
     (map fst [(''shop'', ''bakery'')]) = [exShop, exBakery, exBakery2]"
proof -
  let ?gm = "[''addr:*'' \<mapsto> [exAddress], ''shop'' \<mapsto> [exShop, exBakery, exBakery2]]"
  let ?t = "[(''shop'', ''bakery'')]"
  have bm: "bestMatch exScore ?gm ?t = Some exBakery"
    by (simp add: bestMatch_def exScore_def exShop_def exBakery_def exBakery2_def mkPreset_def)
  have cs: "candidates ?gm (map fst ?t) = [exShop, exBakery, exBakery2]"
    by (simp add: candidates_def)
  have sc: "exScore exBakery2 ?t = exScore exBakery ?t"
    by (simp add: exScore_def exBakery_def exBakery2_def mkPreset_def)
  from matchTags_first_best_wins[of exScore ?t "[]" exShop "- 1" None ?gm exBakery] bm
  have "\<exists>i < length (candidates ?gm (map fst ?t)). candidates ?gm (map fst ?t) ! i = exBakery"
    by blast
  then show ?thesis using bm cs sc by simp
qed

section \<open>Properties of allowsVertex\<close>

text \<open>
  Claim C10. For an entity whose type is not \<open>node\<close>, \<open>allowsVertex\<close> returns false
  whatever its tags, the cached slot, the address-line test and the geometry classifier
  are.
\<close>

theorem allowsVertex_not_node:
  "etype e \<noteq> ''node'' \<Longrightarrow> allowsVertex osmNodeGeometriesForTags isOnAddressLine cached e = False"
  by (simp add: allowsVertex_def)

text \<open>An instance: a way with tags, a cached \<open>true\<close> and an address line.\<close>

theorem allowsVertex_not_node_witness:
  "etype \<lparr>etype = ''way'', entity_tags = [(''highway'', ''bus_stop'')]\<rparr> \<noteq> ''node'' \<and>
   allowsVertex (\<lambda>t g. True) True (Some True)
     \<lparr>etype = ''way'', entity_tags = [(''highway'', ''bus_stop'')]\<rparr> = False"
  using allowsVertex_not_node[of "\<lparr>etype = ''way'', entity_tags = [(''highway'', ''bus_stop'')]\<rparr>"
      "\<lambda>t g. True" True "Some True"]
  by simp

section \<open>Properties of areaKeys\<close>

lemma whitelistStep_ignore:
  "k \<in> set ignore \<Longrightarrow> areaKeys0 k = None \<Longrightarrow> whitelistStep areaKeys0 d k = None"
  by (auto simp: whitelistStep_def split: list.splits prod.splits)

lemma whitelist_ignore:
  "k \<in> set ignore \<Longrightarrow> areaKeys0 k = None \<Longrightarrow> foldl whitelistStep areaKeys0 ps k = None"
  by (induction ps arbitrary: areaKeys0) (simp_all add: whitelistStep_ignore)

lemma whitelistStep_values:
  "\<forall>k vs. areaKeys0 k = Some vs \<longrightarrow> vs = {} \<Longrightarrow>
   \<forall>k vs. whitelistStep areaKeys0 d k = Some vs \<longrightarrow> vs = {}"
  by (auto simp: whitelistStep_def split: list.splits prod.splits option.splits if_splits)

lemma whitelist_values:
  "\<forall>k vs. areaKeys0 k = Some vs \<longrightarrow> vs = {} \<Longrightarrow>
   \<forall>k vs. foldl whitelistStep areaKeys0 ps k = Some vs \<longrightarrow> vs = {}"
proof (induction ps arbitrary: areaKeys0)
  case Nil
  then show ?case by simp
next
  case (Cons d ps)
  show ?case using Cons.IH[OF whitelistStep_values[OF Cons.prems]] by simp
qed

lemma blacklistStep_none:
  "areaKeys0 k = None \<Longrightarrow> blacklistStep areaKeys0 d k = None"
  by (auto simp: blacklistStep_def split: list.splits prod.splits option.splits)

lemma blacklist_none:
  "areaKeys0 k = None \<Longrightarrow> foldl blacklistStep areaKeys0 ps k = None"
  by (induction ps arbitrary: areaKeys0) (simp_all add: blacklistStep_none)

lemma blacklistStep_values:
  assumes "blacklistStep areaKeys0 d k = Some vs" "v \<in> vs"
  shows "(\<exists>vs0. areaKeys0 k = Some vs0 \<and> v \<in> vs0) \<or>
         ((\<exists>rest. tags d = (k, v) # rest) \<and> ''line'' \<in> set (geometry d) \<and> v \<noteq> ''*'')"
  using assms
  by (auto simp: blacklistStep_def split: list.splits prod.splits option.splits if_splits)

lemma blacklist_values:
  assumes "foldl blacklistStep areaKeys0 ps k = Some vs" "v \<in> vs"
  shows "(\<exists>vs0. areaKeys0 k = Some vs0 \<and> v \<in> vs0) \<or>
         (\<exists>d \<in> set ps. (\<exists>rest. tags d = (k, v) # rest) \<and> ''line'' \<in> set (geometry d) \<and> v \<noteq> ''*'')"
  using assms
proof (induction ps arbitrary: vs rule: rev_induct)
  case Nil
  then show ?case by simp
next
  case (snoc d ps)
  from snoc.prems have "blacklistStep (foldl blacklistStep areaKeys0 ps) d k = Some vs" by simp
  from blacklistStep_values[OF this snoc.prems(2)]
  show ?case
  proof
    assume "\<exists>vs0. foldl blacklistStep areaKeys0 ps k = Some vs0 \<and> v \<in> vs0"
    then obtain vs0 where "foldl blacklistStep areaKeys0 ps k = Some vs0" "v \<in> vs0" by blast
    from snoc.IH[OF this] show ?thesis by auto
  next
    assume "(\<exists>rest. tags d = (k, v) # rest) \<and> ''line'' \<in> set (geometry d) \<and> v \<noteq> ''*''"
    then show ?thesis by auto
  qed
qed

text \<open>
  Claim C9. The mapping \<open>areaKeys()\<close> returns has none of \<open>barrier\<close>, \<open>highway\<close>,
  \<open>footway\<close>, \<open>railway\<close>, \<open>type\<close> as a key, for every collection; and a value \<open>v\<close> stands
  in the blacklist of a key \<open>k\<close> only when a preset of the collection that is neither a
  suggestion nor a replacement has \<open>k\<close> as its first declared tag key with the value \<open>v\<close>,
  supports the line geometry, and \<open>v\<close> is not the wildcard.
\<close>

theorem areaKeys_whitelist_blacklist:
  "(\<forall>k \<in> set ignore. areaKeys coll k = None) \<and>
   (\<forall>k vs v. areaKeys coll k = Some vs \<and> v \<in> vs \<longrightarrow>
      (\<exists>d \<in> set coll. \<not> suggestion d \<and> \<not> replacement d \<and> (\<exists>rest. tags d = (k, v) # rest) \<and>
         ''line'' \<in> set (geometry d) \<and> v \<noteq> ''*''))"
proof (intro conjI ballI allI impI)
  let ?ps = "filter (\<lambda>p. \<not> suggestion p \<and> \<not> replacement p) coll"
  let ?w = "foldl whitelistStep Map.empty ?ps"
  fix k assume "k \<in> set ignore"
  then have "?w k = None" by (simp add: whitelist_ignore)
  then show "areaKeys coll k = None" by (simp add: areaKeys_def Let_def blacklist_none)
next
  let ?ps = "filter (\<lambda>p. \<not> suggestion p \<and> \<not> replacement p) coll"
  let ?w = "foldl whitelistStep Map.empty ?ps"
  fix k vs v assume a: "areaKeys coll k = Some vs \<and> v \<in> vs"
  then have f: "foldl blacklistStep ?w ?ps k = Some vs" and v: "v \<in> vs"
    by (simp_all add: areaKeys_def Let_def)
  have w: "\<forall>k vs. ?w k = Some vs \<longrightarrow> vs = {}" by (rule whitelist_values) simp
  from blacklist_values[OF f v] w
  obtain d where "d \<in> set ?ps" "\<exists>rest. tags d = (k, v) # rest" "''line'' \<in> set (geometry d)" "v \<noteq> ''*''"
    by auto
  then show "\<exists>d \<in> set coll. \<not> suggestion d \<and> \<not> replacement d \<and> (\<exists>rest. tags d = (k, v) # rest) \<and>
         ''line'' \<in> set (geometry d) \<and> v \<noteq> ''*''"
    by auto
qed

text \<open>
  On the example collection the key \<open>man_made\<close> is whitelisted by area presets and its
  line presets blacklist \<open>pier\<close> and \<open>pipeline\<close>; the suggestion preset contributes nothing,
  and \<open>barrier\<close> stays out although a wall is an area preset.
\<close>

lemma areaKeys_exCollection_man_made: "areaKeys exCollection ''man_made'' = Some {''pier'', ''pipeline''}"
  by (simp add: areaKeys_def exCollection_def exPoint_def exBuilding_def exWall_def exPier_def exTower_def
      exPipeline_def exBrand_def mkPreset_def whitelistStep_def blacklistStep_def ignore_def insert_commute)

lemma areaKeys_exCollection_barrier: "areaKeys exCollection ''barrier'' = None"
  by (simp add: areaKeys_def exCollection_def exPoint_def exBuilding_def exWall_def exPier_def exTower_def
      exPipeline_def exBrand_def mkPreset_def whitelistStep_def blacklistStep_def ignore_def)

theorem areaKeys_whitelist_blacklist_witness:
  "areaKeys exCollection ''man_made'' = Some {''pier'', ''pipeline''} \<and>
   areaKeys exCollection ''barrier'' = None \<and> ''barrier'' \<in> set ignore \<and>
   (\<exists>d \<in> set exCollection. \<not> suggestion d \<and> \<not> replacement d \<and>
      (\<exists>rest. tags d = (''man_made'', ''pipeline'') # rest) \<and>
      ''line'' \<in> set (geometry d) \<and> ''pipeline'' \<noteq> ''*'')"
proof -
  have i: "''barrier'' \<in> set ignore" by (simp add: ignore_def)
  have v: "''pipeline'' \<in> {''pier'', ''pipeline''}" by simp
  from areaKeys_whitelist_blacklist[of exCollection] i areaKeys_exCollection_man_made v
  show ?thesis using areaKeys_exCollection_man_made by blast
qed

section \<open>Properties of the favorites and recents lists\<close>

text \<open>
  \<open>favoriteMatching\<close> returns the first item that matches, and \<open>indexOf\<close> finds the first
  item equal to it, which is the same position: the \<open>splice\<close> removes that item. The
  lemmas below are stated for a catalog in which the fallback preset of a geometry is
  its own fallback, as each function replaces the geometry by the id of its fallback
  preset and \<open>favoriteMatching\<close> does so once more.
\<close>

lemma indexOf_range:
  "x \<in> set xs \<Longrightarrow> 0 \<le> indexOf xs x \<and> indexOf xs x < int (length xs)"
  by (induction xs) (auto simp: Let_def)

lemma indexOf_absent: "x \<notin> set xs \<Longrightarrow> indexOf xs x = - 1"
  by (induction xs) (auto simp: Let_def)

lemma splice1_indexOf:
  "x \<in> set xs \<Longrightarrow> splice1 xs (indexOf xs x) = remove1 x xs"
proof (induction xs)
  case Nil
  then show ?case by simp
next
  case (Cons y ys)
  show ?case
  proof (cases "y = x")
    case True
    then show ?thesis by (simp add: splice1_def)
  next
    case False
    with Cons.prems have mem: "x \<in> set ys" by simp
    from indexOf_range[OF mem] have r: "0 \<le> indexOf ys x" "indexOf ys x < int (length ys)" by simp_all
    have ih: "splice1 ys (indexOf ys x) = remove1 x ys" using Cons.IH[OF mem] .
    have n: "nat (indexOf ys x + 1) = Suc (nat (indexOf ys x))" using r by simp
    show ?thesis using False r ih n
      by (simp add: splice1_def Let_def min_def max_def)
  qed
qed

lemma find_mem: "find P xs = Some x \<Longrightarrow> x \<in> set xs \<and> P x"
  by (induction xs) (auto split: if_splits)

lemma find_None_iff2: "find P xs = None \<longleftrightarrow> (\<forall>x \<in> set xs. \<not> P x)"
  by (induction xs) auto

lemma matches_itemKey: "matches item p g \<longleftrightarrow> itemKey item = (pid p, g)"
  by (simp add: matches_def itemKey_def)

lemma toggleFavorite_eq:
  assumes "fallback geom = Some fb" "fallback (pid fb) = Some fb'" "pid fb' = pid fb"
  shows "toggleFavorite fallback s p geom =
     Inr (s\<lparr>p_favorites :=
        (case find (\<lambda>item. matches item p (pid fb)) (p_favorites s) of
           Some favorite \<Rightarrow> remove1 favorite (p_favorites s)
         | None \<Rightarrow> (if length (p_favorites s) = 10 then butlast (p_favorites s) else p_favorites s)
                    @ [RibbonItem p (pid fb) Favorite])\<rparr>)"
  using assms
  by (auto simp: toggleFavorite_def favoriteMatching_def Let_def splice1_indexOf
      split: option.splits dest: find_mem)

lemma addFavorite_eq:
  assumes "fallback geom = Some fb" "fallback (pid fb) = Some fb'" "pid fb' = pid fb"
  shows "addFavorite fallback s p geom =
     Inr (s\<lparr>p_favorites :=
        (case find (\<lambda>item. matches item p (pid fb)) (p_favorites s) of
           Some favorite \<Rightarrow> p_favorites s
         | None \<Rightarrow> p_favorites s @ [RibbonItem p (pid fb) Favorite])\<rparr>)"
  using assms
  by (auto simp: addFavorite_def favoriteMatching_def Let_def split: option.splits)

lemma setMostRecent_eq:
  assumes "\<not> inIntro" "searchable p"
    and "fallback geom = Some fb" "fallback (pid fb) = Some fb'" "pid fb' = pid fb"
  shows "setMostRecent inIntro fallback s p geom =
     Inr (s\<lparr>p_recents :=
        (case find (\<lambda>item. matches item p (pid fb)) (p_recents s) of
           Some it \<Rightarrow> it # (if length (remove1 it (p_recents s)) = 30
                             then butlast (remove1 it (p_recents s)) else remove1 it (p_recents s))
         | None \<Rightarrow> RibbonItem p (pid fb) Recent #
                     (if length (p_recents s) = 30 then butlast (p_recents s) else p_recents s))\<rparr>)"
  using assms
  by (auto simp: setMostRecent_def recentMatching_def Let_def splice1_indexOf
      split: option.splits dest: find_mem)

lemma exFallback_point: "exFallback ''point'' = Some exPoint"
  by (simp add: exFallback_def)

lemma exFallback_vertex: "exFallback ''vertex'' = Some exPoint"
  by (simp add: exFallback_def)

lemma pid_exPoint: "pid exPoint = ''point''"
  by (simp add: exPoint_def mkPreset_def)

text \<open>
  Claim C3 fails at capacity. On a list of ten items, \<open>addFavorite\<close> with a pair that is
  not present does not leave the membership unchanged: there is no test of the length,
  and the new item is appended as the eleventh.
\<close>

theorem addFavorite_full_list_appends:
  "length (p_favorites exFull) = 10 \<and>
   favoriteMatching exFallback exFull exShop ''point'' = Inr None \<and>
   addFavorite exFallback exFull exShop ''point''
     = Inr (exFull\<lparr>p_favorites := p_favorites exFull @ [RibbonItem exShop ''point'' Favorite]\<rparr>) \<and>
   set (p_favorites exFull @ [RibbonItem exShop ''point'' Favorite]) \<noteq> set (p_favorites exFull)"
proof -
  have l: "length (p_favorites exFull) = 10" by (simp add: exFull_def)
  have m: "favoriteMatching exFallback exFull exShop ''point'' = Inr None"
    by (simp add: favoriteMatching_def exFallback_point exFull_def exItem_def RibbonItem_def matches_def
        mkPreset_def exShop_def exPoint_def)
  have a: "addFavorite exFallback exFull exShop ''point''
     = Inr (exFull\<lparr>p_favorites := p_favorites exFull @ [RibbonItem exShop ''point'' Favorite]\<rparr>)"
    using m by (simp add: addFavorite_def exFallback_point pid_exPoint)
  have "RibbonItem exShop ''point'' Favorite \<notin> set (p_favorites exFull)"
    by (simp add: exFull_def exItem_def RibbonItem_def mkPreset_def exShop_def)
  then have d: "set (p_favorites exFull @ [RibbonItem exShop ''point'' Favorite]) \<noteq> set (p_favorites exFull)"
    by auto
  show ?thesis using l m a d by simp
qed










text \<open>
  Claim C8. Outside the guided tour, for a searchable preset with an equal item \<open>it\<close> in
  a recents list within its capacity of 30, \<open>setMostRecent\<close> puts \<open>it\<close> at the front and
  removes it from its old position: the list keeps its length and holds the same items
  with the same multiplicities, so nothing is duplicated.
\<close>

theorem setMostRecent_moves_to_front:
  assumes run: "\<not> inIntro" "searchable p"
    and fb: "fallback geom = Some fb" "fallback (pid fb) = Some fb'" "pid fb' = pid fb"
    and found: "find (\<lambda>item. matches item p (pid fb)) (p_recents s) = Some it"
    and cap: "length (p_recents s) \<le> 30"
  shows "setMostRecent inIntro fallback s p geom = Inr (s\<lparr>p_recents := it # remove1 it (p_recents s)\<rparr>) \<and>
         length (it # remove1 it (p_recents s)) = length (p_recents s) \<and>
         mset (it # remove1 it (p_recents s)) = mset (p_recents s)"
proof -
  from found have mem: "it \<in> set (p_recents s)" using find_mem by fast
  then have pos: "length (p_recents s) > 0" by (cases "p_recents s") auto
  have len: "length (remove1 it (p_recents s)) = length (p_recents s) - 1"
    using mem by (simp add: length_remove1)
  then have ne: "length (remove1 it (p_recents s)) \<noteq> 30" using cap pos by linarith
  have r: "setMostRecent inIntro fallback s p geom = Inr (s\<lparr>p_recents := it # remove1 it (p_recents s)\<rparr>)"
    using found ne by (simp add: setMostRecent_eq[OF run fb])
  show ?thesis using r len pos mem by simp
qed

text \<open>An instance: the second of three recents moves to the front.\<close>

theorem setMostRecent_moves_to_front_witness:
  "searchable exBakery \<and> exFallback ''vertex'' = Some exPoint \<and> exFallback (pid exPoint) = Some exPoint \<and>
   find (\<lambda>item. matches item exBakery (pid exPoint)) (p_recents exDefaults)
     = Some (RibbonItem exBakery ''point'' Recent) \<and>
   setMostRecent False exFallback exDefaults exBakery ''vertex''
     = Inr (exDefaults\<lparr>p_recents := [RibbonItem exBakery ''point'' Recent, RibbonItem exShop ''point'' Recent,
                                            RibbonItem exBakery ''area'' Recent]\<rparr>)"
proof -
  have f1: "exFallback ''vertex'' = Some exPoint" by (rule exFallback_vertex)
  have f2: "exFallback (pid exPoint) = Some exPoint" by (simp add: pid_exPoint exFallback_point)
  have sb: "searchable exBakery" by (simp add: exBakery_def mkPreset_def)
  have fd: "find (\<lambda>item. matches item exBakery (pid exPoint)) (p_recents exDefaults)
     = Some (RibbonItem exBakery ''point'' Recent)"
    by (simp add: exDefaults_def matches_def RibbonItem_def exBakery_def exShop_def mkPreset_def pid_exPoint)
  have cap: "length (p_recents exDefaults) \<le> 30" by (simp add: exDefaults_def)
  have rm: "RibbonItem exBakery ''point'' Recent # remove1 (RibbonItem exBakery ''point'' Recent) (p_recents exDefaults)
      = [RibbonItem exBakery ''point'' Recent, RibbonItem exShop ''point'' Recent,
         RibbonItem exBakery ''area'' Recent]"
    by (simp add: exDefaults_def RibbonItem_def exBakery_def exShop_def mkPreset_def)
  from setMostRecent_moves_to_front[where inIntro = False and p = exBakery and fallback = exFallback
      and geom = "''vertex''" and fb = exPoint and fb' = exPoint and s = exDefaults
      and it = "RibbonItem exBakery ''point'' Recent", OF _ sb f1 f2 refl fd cap]
  have "setMostRecent False exFallback exDefaults exBakery ''vertex''
     = Inr (exDefaults\<lparr>p_recents := RibbonItem exBakery ''point'' Recent #
          remove1 (RibbonItem exBakery ''point'' Recent) (p_recents exDefaults)\<rparr>)"
    by simp
  then show ?thesis using sb f1 f2 fd rm by simp
qed

text \<open>
  The capacities that the code keeps: \<open>toggleFavorite\<close> keeps a favorites list within
  10 and \<open>setMostRecent\<close> keeps a recents list within 30, so every sequence of the three
  operations keeps the recents within 30, and one without \<open>addFavorite\<close> keeps the
  favorites within 10.
\<close>

lemma length_splice1: "length (splice1 xs i) \<le> length xs"
  by (simp add: splice1_def Let_def)

lemma toggleFavorite_capacity:
  assumes "toggleFavorite fallback s p geom = Inr s'" "length (p_favorites s) \<le> 10"
  shows "length (p_favorites s') \<le> 10 \<and> p_recents s' = p_recents s"
proof -
  have "length (splice1 (p_favorites s) i) \<le> 10" for i
    using length_splice1[of "p_favorites s" i] assms(2) by linarith
  then show ?thesis using assms
    by (auto simp: toggleFavorite_def Let_def split: option.splits sum.splits if_splits)
qed

lemma addFavorite_recents:
  "addFavorite fallback s p geom = Inr s' \<Longrightarrow> p_recents s' = p_recents s"
  by (auto simp: addFavorite_def Let_def split: option.splits sum.splits)

lemma recentMatching_splice1:
  assumes "recentMatching fallback s p g = Inr (Some it)"
  shows "Suc (length (splice1 (p_recents s) (indexOf (p_recents s) it))) = length (p_recents s)"
proof -
  from assms have mem: "it \<in> set (p_recents s)"
    by (auto simp: recentMatching_def split: option.splits dest: find_mem)
  then have "length (p_recents s) > 0" by (cases "p_recents s") auto
  then show ?thesis using mem by (simp add: splice1_indexOf length_remove1)
qed

lemma setMostRecent_capacity:
  assumes "setMostRecent inIntro fallback s p geom = Inr s'" "length (p_recents s) \<le> 30"
  shows "length (p_recents s') \<le> 30 \<and> p_favorites s' = p_favorites s"
proof (cases "inIntro \<or> \<not> searchable p")
  case True
  then show ?thesis using assms by (auto simp: setMostRecent_def split: if_splits)
next
  case False
  then obtain fb where fb: "fallback geom = Some fb"
    using assms(1) by (cases "fallback geom") (auto simp: setMostRecent_def)
  then obtain found where found: "recentMatching fallback s p (pid fb) = Inr found"
    using assms(1) False by (cases "recentMatching fallback s p (pid fb)") (auto simp: setMostRecent_def)
  show ?thesis
  proof (cases found)
    case None
    then show ?thesis using assms False fb found
      by (auto simp: setMostRecent_def Let_def split: if_splits)
  next
    case (Some it)
    from recentMatching_splice1[OF found[unfolded Some]] assms(2)
    have "length (splice1 (p_recents s) (indexOf (p_recents s) it)) \<le> 29" by linarith
    then show ?thesis using assms False fb found Some
      by (auto simp: setMostRecent_def Let_def split: if_splits)
  qed
qed

lemma applyOp_recents_capacity:
  "applyOp inIntro fallback s x = Inr s' \<Longrightarrow> length (p_recents s) \<le> 30 \<Longrightarrow> length (p_recents s') \<le> 30"
proof (cases x)
  case (ToggleFavorite p g)
  assume "applyOp inIntro fallback s x = Inr s'" "length (p_recents s) \<le> 30"
  then show ?thesis using ToggleFavorite
    by (auto simp: toggleFavorite_def Let_def split: option.splits sum.splits if_splits)
next
  case (AddFavorite p g)
  assume "applyOp inIntro fallback s x = Inr s'" "length (p_recents s) \<le> 30"
  then show ?thesis using AddFavorite addFavorite_recents[of fallback s p g s'] by simp
next
  case (SetMostRecent p g)
  assume "applyOp inIntro fallback s x = Inr s'" "length (p_recents s) \<le> 30"
  then show ?thesis using SetMostRecent setMostRecent_capacity[of inIntro fallback s p g s'] by simp
qed

lemma applyOps_recents_capacity:
  "applyOps inIntro fallback s ops = Inr s' \<Longrightarrow> length (p_recents s) \<le> 30 \<Longrightarrow> length (p_recents s') \<le> 30"
proof (induction ops arbitrary: s)
  case Nil
  then show ?case by simp
next
  case (Cons x xs)
  then obtain s1 where s1: "applyOp inIntro fallback s x = Inr s1" "applyOps inIntro fallback s1 xs = Inr s'"
    by (auto split: sum.splits)
  have "length (p_recents s1) \<le> 30" using s1(1) Cons.prems(2) by (rule applyOp_recents_capacity)
  then show ?case using Cons.IH[OF s1(2)] by simp
qed

lemma applyOp_favorites_capacity:
  "applyOp inIntro fallback s x = Inr s' \<Longrightarrow> \<not> isAddFavorite x \<Longrightarrow>
   length (p_favorites s) \<le> 10 \<Longrightarrow> length (p_favorites s') \<le> 10"
proof (cases x)
  case (ToggleFavorite p g)
  assume "applyOp inIntro fallback s x = Inr s'" "length (p_favorites s) \<le> 10"
  then show ?thesis using ToggleFavorite toggleFavorite_capacity[of fallback s p g s'] by simp
next
  case (AddFavorite p g)
  assume "\<not> isAddFavorite x"
  then show ?thesis using AddFavorite by simp
next
  case (SetMostRecent p g)
  assume "applyOp inIntro fallback s x = Inr s'" "length (p_favorites s) \<le> 10"
  then show ?thesis using SetMostRecent
    by (auto simp: setMostRecent_def Let_def split: if_splits option.splits sum.splits prod.splits)
qed

lemma applyOps_favorites_capacity:
  "applyOps inIntro fallback s ops = Inr s' \<Longrightarrow> \<forall>x \<in> set ops. \<not> isAddFavorite x \<Longrightarrow>
   length (p_favorites s) \<le> 10 \<Longrightarrow> length (p_favorites s') \<le> 10"
proof (induction ops arbitrary: s)
  case Nil
  then show ?case by simp
next
  case (Cons x xs)
  then obtain s1 where s1: "applyOp inIntro fallback s x = Inr s1" "applyOps inIntro fallback s1 xs = Inr s'"
    by (auto split: sum.splits)
  have "\<not> isAddFavorite x" using Cons.prems(2) by simp
  with s1(1) have "length (p_favorites s1) \<le> 10" using Cons.prems(3) by (rule applyOp_favorites_capacity)
  then show ?case using Cons.IH[OF s1(2)] Cons.prems(2) by simp
qed

text \<open>
  Claim C1 fails on \<open>addFavorite\<close>, which appends without the capacity test of
  \<open>toggleFavorite\<close>: eleven calls with distinct presets on the empty list leave eleven
  favorites.
\<close>

theorem addFavorite_exceeds_capacity:
  "applyOps False exFallback \<lparr>p_favorites = [], p_recents = []\<rparr>
     (map (\<lambda>n. AddFavorite (mkPreset n [] [''point'']) ''point'') exEleven)
     = Inr \<lparr>p_favorites = map exItem exEleven, p_recents = []\<rparr> \<and>
   length (map exItem exEleven) = 11"
  by (simp add: exEleven_def addFavorite_def favoriteMatching_def exFallback_point pid_exPoint exItem_def
      RibbonItem_def matches_def mkPreset_def Let_def)

section \<open>Properties of the tag index\<close>

text \<open>
  After \<open>init\<close>, which clears \<open>_index\<close> before it builds, the bucket of every geometry kind
  and key holds exactly the presets of the collection that declare that geometry and
  that key, once each and in collection order.
\<close>

lemma indexKeys_bucket:
  "distinct ks \<Longrightarrow> bucketOf (indexKeys p ks g) k = bucketOf g k @ (if k \<in> set ks then [p] else [])"
proof (induction ks arbitrary: g)
  case Nil
  then show ?case by simp
next
  case (Cons k' ks)
  then show ?case by (auto simp: bucketOf_def)
qed

lemma indexGeometries_bucket:
  assumes "indexGeometries p gs idx = Inr idx'" "distinct gs" "distinct (map fst (tags p))"
    "idx g = Some gm"
  shows "\<exists>gm'. idx' g = Some gm' \<and>
           bucketOf gm' k = bucketOf gm k @ (if g \<in> set gs \<and> k \<in> set (map fst (tags p)) then [p] else [])"
  using assms
proof (induction gs arbitrary: idx gm)
  case Nil
  then show ?case by simp
next
  case (Cons gj gs)
  show ?case
  proof (cases "idx gj")
    case None
    then have ne: "gj \<noteq> g" using Cons.prems(4) by auto
    from None Cons.prems(1) have t: "tags p = []" and r: "indexGeometries p gs idx = Inr idx'"
      by (auto split: if_splits)
    from Cons.IH[OF r _ Cons.prems(3,4)] Cons.prems(2) ne t show ?thesis by auto
  next
    case (Some g0)
    let ?idx1 = "idx(gj \<mapsto> indexKeys p (map fst (tags p)) g0)"
    from Some Cons.prems(1) have r: "indexGeometries p gs ?idx1 = Inr idx'" by simp
    have d: "distinct gs" and nin: "gj \<notin> set gs" using Cons.prems(2) by simp_all
    show ?thesis
    proof (cases "gj = g")
      case True
      then have g0: "g0 = gm" using Some Cons.prems(4) by simp
      have i1: "?idx1 g = Some (indexKeys p (map fst (tags p)) gm)" using True g0 by simp
      from Cons.IH[OF r d Cons.prems(3) i1] nin True
      show ?thesis by (auto simp: indexKeys_bucket[OF Cons.prems(3)])
    next
      case False
      then have i1: "?idx1 g = Some gm" using Cons.prems(4) by simp
      from Cons.IH[OF r d Cons.prems(3) i1] False show ?thesis by auto
    qed
  qed
qed

lemma indexCollection_bucket:
  assumes "indexCollection ps idx = Inr idx'" "\<forall>p \<in> set ps. wellFormed p" "idx g = Some gm"
  shows "\<exists>gm'. idx' g = Some gm' \<and> bucketOf gm' k = bucketOf gm k @ filter (indexedUnder g k) ps"
  using assms
proof (induction ps arbitrary: idx gm)
  case Nil
  then show ?case by simp
next
  case (Cons p ps)
  from Cons.prems(1) obtain idx1 where i1: "indexGeometries p (geometry p) idx = Inr idx1"
    and r: "indexCollection ps idx1 = Inr idx'"
    by (auto split: sum.splits)
  have wf: "distinct (geometry p)" "distinct (map fst (tags p))"
    using Cons.prems(2) by (simp_all add: wellFormed_def)
  from indexGeometries_bucket[OF i1 wf Cons.prems(3), of k]
  obtain gm1 where g1: "idx1 g = Some gm1"
    and b1: "bucketOf gm1 k = bucketOf gm k @ (if g \<in> set (geometry p) \<and> k \<in> set (map fst (tags p)) then [p] else [])"
    by blast
  have "\<forall>p \<in> set ps. wellFormed p" using Cons.prems(2) by simp
  from Cons.IH[OF r this g1] obtain gm' where
    "idx' g = Some gm'" "bucketOf gm' k = bucketOf gm1 k @ filter (indexedUnder g k) ps"
    by blast
  moreover have "bucketOf gm1 k = bucketOf gm k @ (if indexedUnder g k p then [p] else [])"
    using b1 by (simp add: indexedUnder_def)
  ultimately show ?case by simp
qed

lemma init_index:
  assumes "init builtin s = Inr s'" "\<forall>p \<in> set (collection s'). wellFormed p"
    "g \<in> {''point'', ''vertex'', ''line'', ''area'', ''relation''}"
  shows "\<exists>gm. p_index s' g = Some gm \<and> bucketOf gm k = filter (indexedUnder g k) (collection s')"
proof -
  from assms(1) obtain idx where
    ic: "indexCollection (collection s') emptyIndex = Inr idx" and ix: "p_index s' = idx"
    by (auto simp: init_def build_def Let_def split: sum.splits)
  have e: "emptyIndex g = Some Map.empty" using assms(3) by (auto simp: emptyIndex_def)
  from indexCollection_bucket[OF ic assms(2) e, of k] ix show ?thesis by (simp add: bucketOf_def)
qed

lemma ex_pids: "pid exShop = ''shop''" "pid exBakery = ''shop/bakery''" "pid exCraft = ''shop''"
  by (simp_all add: exShop_def exBakery_def exCraft_def mkPreset_def)

lemma ex_tags: "tags exShop = [(''shop'', ''*'')]" "tags exBakery = [(''shop'', ''bakery'')]"
  "tags exCraft = [(''craft'', ''*'')]"
  by (simp_all add: exShop_def exBakery_def exCraft_def mkPreset_def)

lemma ex_geometry: "geometry exShop = [''point'', ''area'']" "geometry exBakery = [''point'', ''area'']"
  "geometry exCraft = [''point'']"
  by (simp_all add: exShop_def exBakery_def exCraft_def mkPreset_def)

text \<open>
  Claim C2 fails on the \<open>fromExternal\<close> path. \<open>build\<close> indexes the whole collection again
  without clearing \<open>_index\<close>, so after the built-in and the external catalog are built in
  turn the bucket \<open>point\<close>, \<open>shop\<close> holds the built-in preset \<open>exShop\<close>, which the external
  preset of the same id has replaced in the collection (a stale entry), and holds
  \<open>exBakery\<close> twice (a duplicate entry).
\<close>

theorem fromExternal_stale_and_duplicate:
  "(case fromExternal exBuiltin (Some exExternal) \<lparr>collection = [], p_index = emptyIndex\<rparr> of
      Inl e \<Rightarrow> False
    | Inr s \<Rightarrow>
        collection s = [exCraft, exBakery] \<and>
        (case p_index s ''point'' of
           None \<Rightarrow> False
         | Some g \<Rightarrow> g ''shop'' = Some [exShop, exBakery, exBakery] \<and> g ''craft'' = Some [exCraft]))"
  by (simp add: fromExternal_def reset_def build_def exBuiltin_def exExternal_def upsert_def emptyIndex_def
      ex_pids ex_tags ex_geometry Let_def)

section \<open>Invariants behind the hypotheses\<close>

text \<open>
  \<open>toggleFavorite\<close> and \<open>addFavorite\<close> keep a favorites list free of equal items.
\<close>

lemma distinctItems_remove1: "distinctItems xs \<Longrightarrow> distinctItems (remove1 x xs)"
  unfolding distinctItems_def distinct_map
  by (auto intro: inj_on_diff)

lemma distinctItems_butlast: "distinctItems xs \<Longrightarrow> distinctItems (butlast xs)"
  unfolding distinctItems_def by (simp add: map_butlast distinct_butlast)

lemma distinctItems_snoc:
  assumes "distinctItems xs" "\<forall>x \<in> set xs. \<not> matches x p g"
  shows "distinctItems (xs @ [RibbonItem p g src])"
proof -
  have "itemKey (RibbonItem p g src) = (pid p, g)" by (simp add: itemKey_def RibbonItem_def)
  moreover have "(pid p, g) \<notin> itemKey ` set xs" using assms(2) by (auto simp: matches_itemKey)
  ultimately show ?thesis using assms(1) by (simp add: distinctItems_def)
qed

lemma toggleFavorite_distinct:
  assumes fb: "fallback geom = Some fb" "fallback (pid fb) = Some fb'" "pid fb' = pid fb"
    and d: "distinctItems (p_favorites s)" and r: "toggleFavorite fallback s p geom = Inr s'"
  shows "distinctItems (p_favorites s')"
proof (cases "find (\<lambda>item. matches item p (pid fb)) (p_favorites s)")
  case None
  let ?cut = "if length (p_favorites s) = 10 then butlast (p_favorites s) else p_favorites s"
  have dc: "distinctItems ?cut" using d by (simp add: distinctItems_butlast)
  have "\<forall>x \<in> set (p_favorites s). \<not> matches x p (pid fb)" using None by (simp add: find_None_iff2)
  then have "\<forall>x \<in> set ?cut. \<not> matches x p (pid fb)" by (auto dest: in_set_butlastD)
  with dc have "distinctItems (?cut @ [RibbonItem p (pid fb) Favorite])" by (rule distinctItems_snoc)
  then show ?thesis using r None by (auto simp: toggleFavorite_eq[OF fb])
next
  case (Some f)
  then show ?thesis using r d by (auto simp: toggleFavorite_eq[OF fb] distinctItems_remove1)
qed

lemma addFavorite_distinct:
  assumes fb: "fallback geom = Some fb" "fallback (pid fb) = Some fb'" "pid fb' = pid fb"
    and d: "distinctItems (p_favorites s)" and r: "addFavorite fallback s p geom = Inr s'"
  shows "distinctItems (p_favorites s')"
proof (cases "find (\<lambda>item. matches item p (pid fb)) (p_favorites s)")
  case None
  then have "\<forall>x \<in> set (p_favorites s). \<not> matches x p (pid fb)" by (simp add: find_None_iff2)
  with d have "distinctItems (p_favorites s @ [RibbonItem p (pid fb) Favorite])" by (rule distinctItems_snoc)
  then show ?thesis using r None by (auto simp: addFavorite_eq[OF fb])
next
  case (Some f)
  then show ?thesis using r d by (auto simp: addFavorite_eq[OF fb])
qed

text \<open>
  \<open>build\<close> creates a bucket by a \<open>push\<close>, so no bucket is empty, and it keeps the geometry
  kinds of \<open>_index\<close>, which are the five of the cleared index.
\<close>

lemma indexKeys_nonempty: "\<forall>k. gm k \<noteq> Some [] \<Longrightarrow> indexKeys p ks gm k \<noteq> Some []"
  by (induction ks arbitrary: gm) auto

lemma indexGeometries_nonempty:
  "indexGeometries p gs idx = Inr idx' \<Longrightarrow> nonEmptyBuckets idx \<Longrightarrow> nonEmptyBuckets idx'"
proof (induction gs arbitrary: idx)
  case Nil
  then show ?case by simp
next
  case (Cons gj gs)
  show ?case
  proof (cases "idx gj")
    case None
    then show ?thesis using Cons by (auto split: if_splits)
  next
    case (Some g0)
    have "\<forall>k. g0 k \<noteq> Some []" using Some Cons.prems(2) by (auto simp: nonEmptyBuckets_def)
    then have "\<forall>k. indexKeys p (map fst (tags p)) g0 k \<noteq> Some []" using indexKeys_nonempty by blast
    then have "nonEmptyBuckets (idx(gj \<mapsto> indexKeys p (map fst (tags p)) g0))"
      using Cons.prems(2) by (auto simp: nonEmptyBuckets_def)
    then show ?thesis using Cons.IH Cons.prems(1) Some by simp
  qed
qed

lemma indexCollection_nonempty:
  "indexCollection ps idx = Inr idx' \<Longrightarrow> nonEmptyBuckets idx \<Longrightarrow> nonEmptyBuckets idx'"
proof (induction ps arbitrary: idx)
  case Nil
  then show ?case by simp
next
  case (Cons p ps)
  then show ?case by (auto split: sum.splits dest: indexGeometries_nonempty)
qed

lemma build_nonempty:
  assumes "build d s = Inr s'" "nonEmptyBuckets (p_index s)"
  shows "nonEmptyBuckets (p_index s')"
proof -
  from assms(1) obtain c idx where "indexCollection c (p_index s) = Inr idx" "p_index s' = idx"
    by (auto simp: build_def Let_def split: sum.splits)
  then show ?thesis using indexCollection_nonempty assms(2) by simp
qed

lemma emptyIndex_nonempty: "nonEmptyBuckets emptyIndex"
  by (auto simp: nonEmptyBuckets_def emptyIndex_def split: if_splits)

lemma indexGeometries_dom: "indexGeometries p gs idx = Inr idx' \<Longrightarrow> dom idx' = dom idx"
proof (induction gs arbitrary: idx)
  case Nil
  then show ?case by simp
next
  case (Cons gj gs)
  show ?case
  proof (cases "idx gj")
    case None
    then show ?thesis using Cons by (auto split: if_splits)
  next
    case (Some g0)
    let ?idx1 = "idx(gj \<mapsto> indexKeys p (map fst (tags p)) g0)"
    have d: "dom ?idx1 = dom idx" using Some by auto
    have "indexGeometries p gs ?idx1 = Inr idx'" using Cons.prems Some by simp
    from Cons.IH[OF this] d show ?thesis by (rule trans)
  qed
qed

lemma indexCollection_dom: "indexCollection ps idx = Inr idx' \<Longrightarrow> dom idx' = dom idx"
proof (induction ps arbitrary: idx)
  case Nil
  then show ?case by simp
next
  case (Cons p ps)
  then obtain idx1 where "indexGeometries p (geometry p) idx = Inr idx1" "indexCollection ps idx1 = Inr idx'"
    by (auto split: sum.splits)
  then show ?case using Cons.IH indexGeometries_dom by metis
qed

lemma build_dom:
  assumes "build d s = Inr s'"
  shows "dom (p_index s') = dom (p_index s)"
proof -
  from assms obtain c idx where "indexCollection c (p_index s) = Inr idx" "p_index s' = idx"
    by (auto simp: build_def Let_def split: sum.splits)
  then show ?thesis using indexCollection_dom by simp
qed

lemma dom_emptyIndex: "dom emptyIndex = {''point'', ''vertex'', ''line'', ''area'', ''relation''}"
  by (auto simp: emptyIndex_def split: if_splits)

end
